theory Spec2Isabelle
  imports Complex_Main "HOL-Library.Sublist"
begin

section \<open>Chess robot controller (app\_v2.py): data model\<close>

text \<open>
  A Python \<open>str\<close> is modelled as a \<^typ>\<open>string\<close> whose characters are the code points
  U+0000 to U+00FF, so \<^const>\<open>length\<close> counts code points as Python's \<open>len\<close> does.
  Code points above U+00FF are outside the model.

  An entry of \<open>POSITION_DATA\<close> is a dict with the two keys \<open>"forward"\<close> and
  \<open>"rotation"\<close>, both Python ints.
\<close>

record position_entry =
  forward :: int
  rotation :: int

definition entry :: "int \<Rightarrow> int \<Rightarrow> position_entry" where
  "entry f r = \<lparr>forward = f, rotation = r\<rparr>"

text \<open>The dict literal of lines 13-93, in the order of the source.\<close>

definition POSITION_DATA_items :: "(string \<times> position_entry) list" where
  "POSITION_DATA_items =
   [(''a8'', entry 30 (-90)), (''a7'', entry 70 (-90)), (''a6'', entry 120 (-90)),
    (''a5'', entry 150 (-90)), (''a4'', entry 180 (-90)), (''a3'', entry 210 (-90)),
    (''a2'', entry 240 (-90)), (''a1'', entry 270 (-90)),
    (''b8'', entry 42 (-45)), (''b7'', entry 98 (-45)), (''b6'', entry 169 (-45)),
    (''b5'', entry 212 (-45)), (''b4'', entry 254 (-45)), (''b3'', entry 297 (-45)),
    (''b2'', entry 339 (-45)), (''b1'', entry 382 (-45)),
    (''c8'', entry 32 (-22)), (''c7'', entry 76 (-22)), (''c6'', entry 130 (-22)),
    (''c5'', entry 163 (-22)), (''c4'', entry 195 (-22)), (''c3'', entry 228 (-22)),
    (''c2'', entry 260 (-22)), (''c1'', entry 292 (-22)),
    (''d8'', entry 30 0), (''d7'', entry 70 0), (''d6'', entry 120 0),
    (''d5'', entry 150 0), (''d4'', entry 180 0), (''d3'', entry 210 0),
    (''d2'', entry 240 0), (''d1'', entry 270 0),
    (''e8'', entry 32 22), (''e7'', entry 76 22), (''e6'', entry 130 22),
    (''e5'', entry 163 22), (''e4'', entry 195 22), (''e3'', entry 228 22),
    (''e2'', entry 260 22), (''e1'', entry 292 22),
    (''f8'', entry 42 45), (''f7'', entry 98 45), (''f6'', entry 169 45),
    (''f5'', entry 212 45), (''f4'', entry 254 45), (''f3'', entry 297 45),
    (''f2'', entry 339 45), (''f1'', entry 382 45),
    (''g8'', entry 78 67), (''g7'', entry 179 67), (''g6'', entry 307 67),
    (''g5'', entry 384 67), (''g4'', entry 461 67), (''g3'', entry 538 67),
    (''g2'', entry 614 67), (''g1'', entry 691 67),
    (''h8'', entry 30 90), (''h7'', entry 70 90), (''h6'', entry 120 90),
    (''h5'', entry 150 90), (''h4'', entry 180 90), (''h3'', entry 210 90),
    (''h2'', entry 240 90), (''h1'', entry 270 90)]"

text \<open>Lookup in the dict: \<open>POSITION_DATA[k]\<close> is \<open>POSITION_DATA k\<close>, \<open>None\<close> for a missing key.\<close>

definition POSITION_DATA :: "string \<rightharpoonup> position_entry" where
  "POSITION_DATA = map_of POSITION_DATA_items"

subsection \<open>Instructions\<close>

text \<open>
  A step of a sequence is a dict of which the executor reads the keys \<open>"wait"\<close>, \<open>"tool"\<close>
  and \<open>"args"\<close>; a field is \<open>None\<close> when the key is absent. The argument mapping is kept as
  an association list from parameter name to the value passed, a delay as a number of seconds.
\<close>

type_synonym tool_args = "(string \<times> string) list"

record step =
  wait :: "rat option"
  tool :: "string option"
  args :: "tool_args option"

definition tool_step :: "string \<Rightarrow> tool_args \<Rightarrow> step" where
  "tool_step t a = \<lparr>wait = None, tool = Some t, args = Some a\<rparr>"

definition wait_step :: "rat \<Rightarrow> step" where
  "wait_step s = \<lparr>wait = Some s, tool = None, args = None\<rparr>"

subsection \<open>Python's \<open>str\<close> of an int\<close>

definition digit_char :: "nat \<Rightarrow> char" where
  "digit_char d = char_of (48 + d)"

fun str_nat :: "nat \<Rightarrow> string" where
  "str_nat n = (if n < 10 then [digit_char n] else str_nat (n div 10) @ [digit_char (n mod 10)])"

definition str_int :: "int \<Rightarrow> string" where
  "str_int i = (if i < 0 then CHR ''-'' # str_nat (nat (- i)) else str_nat (nat i))"

section \<open>Home-sequence synthesis\<close>

text \<open>
  \<open>create_home_sequence(forward_distance, rotation_angle)\<close>, lines 127-142. The fourth
  argument value is the f-string \<open>f"-{forward_distance}"\<close>: a minus sign followed by the
  decimal text of the distance.
\<close>

definition create_home_sequence :: "int \<Rightarrow> int \<Rightarrow> step list" where
  "create_home_sequence forward_distance rotation_angle =
    (let rotation_reset = (if rotation_angle \<noteq> 0 then - rotation_angle else 0);
         home_sequence =
           [tool_step ''move_robot'' [(''move_gripper_up_mm'', ''50'')],
            tool_step ''move_robot'' [(''tilt_gripper_down_angle'', ''-80'')],
            tool_step ''move_robot'' [(''move_gripper_up_mm'', ''-75'')],
            tool_step ''move_robot''
              [(''move_gripper_forward_mm'', CHR ''-'' # str_int forward_distance)]]
     in if rotation_reset \<noteq> 0
        then home_sequence @
          [tool_step ''move_robot'' [(''rotate_robot_right_angle'', str_int rotation_reset)]]
        else home_sequence)"

section \<open>Validator\<close>

text \<open>
  \<open>validate_position(position)\<close>, lines 153-167, returning the pair \<open>(ok, message)\<close>.
  \<open>position[0] not in 'abcdefgh'\<close> is a substring test on a one-character string, that is
  membership of the character.
\<close>

definition msg_format :: string where
  "msg_format = ''Invalid position format. Use format like 'd7', 'e5', etc.''"

definition msg_column :: "char \<Rightarrow> string" where
  "msg_column c = ''Invalid column '' @ [CHR 0x27, c, CHR 0x27] @ ''. Must be a-h.''"

definition msg_row :: "char \<Rightarrow> string" where
  "msg_row c = ''Invalid row '' @ [CHR 0x27, c, CHR 0x27] @ ''. Must be 1-8.''"

definition msg_unavailable :: "string \<Rightarrow> string" where
  "msg_unavailable p = ''Position '' @ [CHR 0x27] @ p @ [CHR 0x27] @ '' not available in position data.''"

definition validate_position :: "string \<Rightarrow> bool \<times> string" where
  "validate_position position =
    (if length position \<noteq> 2 then (False, msg_format)
     else if position ! 0 \<notin> set ''abcdefgh'' then (False, msg_column (position ! 0))
     else if position ! 1 \<notin> set ''12345678'' then (False, msg_row (position ! 1))
     else if position \<notin> dom POSITION_DATA then (False, msg_unavailable position)
     else (True, ''Valid''))"

section \<open>Environment, console output and traces\<close>

text \<open>
  Python exceptions that the program meets. All but \<open>KeyboardInterrupt\<close> are subclasses
  of \<open>Exception\<close>. \<open>ToolError\<close> is whatever \<open>session.call_tool\<close> raises,
  \<open>ConnectError\<close> whatever opening or initialising the session raises, \<open>OSError\<close> any
  failure of \<open>open\<close> or \<open>json.load\<close> other than the two that \<open>move_chess_piece\<close> catches.
\<close>

datatype exn =
    KeyError string
  | ToolError string
  | ConnectError string
  | OSError string
  | KeyboardInterrupt

fun is_Exception :: "exn \<Rightarrow> bool" where
  "is_Exception KeyboardInterrupt = False"
| "is_Exception _ = True"

text \<open>What awaiting \<open>session.call_tool\<close> can do: return a result, raise, or be interrupted
  by the user.\<close>

datatype outcome = Result string | Raises string | Interrupted

text \<open>One constructor for each \<open>print\<close> statement of the modelled functions (the helpers
  \<open>print_usage\<close> and \<open>print_position_info\<close> are one message each).\<close>

datatype message =
    Waiting rat
  | Executing_tool string tool_args
  | Tool_result string
  | Error_executing_sequence exn
  | Command_not_found string
  | Executing_command string
  | Config_not_found
  | Config_invalid_json
  | Position_not_in_commands string
  | Starting_move string string position_entry position_entry
  | Executing_home string
  | Move_completed string string
  | Error_during_move exn
  | Invalid_argument_count
  | Usage
  | From_position_error string
  | To_position_error string
  | Same_positions
  | Banner
  | Position_info string position_entry
  | Executing_move_sequence
  | Move_interrupted
  | Unexpected_error exn

text \<open>
  The observable trace. \<open>Open_session sequence\<close> marks one call of
  \<open>execute_robot_sequence\<close> (one sequence execution) and records the sequence it replays;
  \<open>Dispatch\<close> is one \<open>session.call_tool\<close> with what came back; \<open>Sleep\<close> is one
  \<open>asyncio.sleep\<close>.
\<close>

datatype event =
    Print message
  | Open_session "step list"
  | Sleep rat
  | Dispatch string tool_args outcome

text \<open>What reading \<open>command.json\<close> gives (lines 176-184).\<close>

datatype config_file =
    File_not_found
  | Invalid_json
  | Other_failure string
  | Parsed "string \<rightharpoonup> step list"

text \<open>
  The collaborators outside the program: the configuration file, and the remote actuator
  interface, whose answers may depend on everything that happened before.
\<close>

record env =
  command_json :: config_file
  open_session :: "event list \<Rightarrow> string option"
  call_tool :: "event list \<Rightarrow> string \<Rightarrow> tool_args \<Rightarrow> outcome"

type_synonym action = "event list \<Rightarrow> (exn + unit) \<times> event list"

text \<open>Sequential composition of two awaited calls: an exception of the first skips the second.\<close>

definition and_then :: "action \<Rightarrow> action \<Rightarrow> action" where
  "and_then f g h = (case f h of (Inl e, h') \<Rightarrow> (Inl e, h') | (Inr u, h') \<Rightarrow> g h')"

definition emit :: "message \<Rightarrow> action" where
  "emit m h = (Inr (), h @ [Print m])"

text \<open>The sequences handed to \<open>execute_robot_sequence\<close>, in order.\<close>

fun executions :: "event list \<Rightarrow> step list list" where
  "executions [] = []"
| "executions (Open_session s # es) = s # executions es"
| "executions (e # es) = executions es"

text \<open>The dispatches that raised.\<close>

fun failed_dispatch :: "event \<Rightarrow> bool" where
  "failed_dispatch (Dispatch t a (Raises m)) = True"
| "failed_dispatch e = False"

section \<open>Sequence executor\<close>

text \<open>The \<open>for\<close> loop of \<open>execute_robot_sequence\<close>, lines 108-121.\<close>

fun run_steps :: "env \<Rightarrow> step list \<Rightarrow> action" where
  "run_steps w [] h = (Inr (), h)"
| "run_steps w (s # rest) h =
    (case wait s of
       Some wait_time \<Rightarrow>
         run_steps w rest (h @ [Print (Waiting wait_time), Sleep wait_time, Sleep (3 / 10)])
     | None \<Rightarrow>
        (case tool s of
           None \<Rightarrow> (Inl (KeyError ''tool''), h)
         | Some tool_name \<Rightarrow>
            (case args s of
               None \<Rightarrow> (Inl (KeyError ''args''), h)
             | Some targs \<Rightarrow>
                (let h1 = h @ [Print (Executing_tool tool_name targs)] in
                 case call_tool w h1 tool_name targs of
                   Result r \<Rightarrow>
                     run_steps w rest
                       (h1 @ [Dispatch tool_name targs (Result r), Print (Tool_result r),
                              Sleep (3 / 10)])
                 | Raises m \<Rightarrow>
                     (Inl (ToolError m), h1 @ [Dispatch tool_name targs (Raises m)])
                 | Interrupted \<Rightarrow>
                     (Inl KeyboardInterrupt, h1 @ [Dispatch tool_name targs Interrupted])))))"

text \<open>\<open>execute_robot_sequence(sequence)\<close>, lines 95-125: the handler prints and re-raises
  every \<open>Exception\<close>.\<close>

definition execute_robot_sequence :: "env \<Rightarrow> step list \<Rightarrow> action" where
  "execute_robot_sequence w sequence h =
    (let h0 = h @ [Open_session sequence] in
     case (case open_session w h0 of
             Some m \<Rightarrow> (Inl (ConnectError m), h0)
           | None \<Rightarrow> run_steps w sequence h0) of
       (Inl e, h1) \<Rightarrow>
         if is_Exception e then (Inl e, h1 @ [Print (Error_executing_sequence e)])
         else (Inl e, h1)
     | (Inr u, h1) \<Rightarrow> (Inr u, h1))"

text \<open>\<open>execute_command_sequence(command_name, commands)\<close>, lines 144-151: a missing
  label is reported and the function returns normally.\<close>

definition execute_command_sequence :: "env \<Rightarrow> string \<Rightarrow> (string \<rightharpoonup> step list) \<Rightarrow> action" where
  "execute_command_sequence w command_name commands h =
    (case commands command_name of
       None \<Rightarrow> (Inr (), h @ [Print (Command_not_found command_name)])
     | Some sequence \<Rightarrow>
         execute_robot_sequence w sequence (h @ [Print (Executing_command command_name)]))"

section \<open>Move orchestrator\<close>

text \<open>The body of the \<open>try\<close> of \<open>move_chess_piece\<close>, lines 206-244.\<close>

definition move_steps ::
  "env \<Rightarrow> (string \<rightharpoonup> step list) \<Rightarrow> string \<Rightarrow> string \<Rightarrow> position_entry \<Rightarrow> position_entry \<Rightarrow> action"
where
  "move_steps w commands from_position to_position from_data to_data =
     and_then (execute_command_sequence w ''attack'' commands)
    (and_then (execute_command_sequence w ''open'' commands)
    (and_then (execute_command_sequence w from_position commands)
    (and_then (execute_command_sequence w ''close'' commands)
    (and_then (emit (Executing_home from_position))
    (and_then (execute_robot_sequence w
                 (create_home_sequence (forward from_data) (rotation from_data)))
    (and_then (execute_command_sequence w ''attack'' commands)
    (and_then (execute_command_sequence w to_position commands)
    (and_then (execute_command_sequence w ''open'' commands)
    (and_then (emit (Executing_home to_position))
    (and_then (execute_robot_sequence w
                 (create_home_sequence (forward to_data) (rotation to_data)))
    (and_then (execute_command_sequence w ''close'' commands)
    (and_then (execute_command_sequence w ''move_for_cam'' commands)
              (emit (Move_completed from_position to_position))))))))))))))"

text \<open>\<open>move_chess_piece(from_position, to_position)\<close>, lines 169-248. The two table
  lookups of lines 196-197 are outside the \<open>try\<close>: a missing key raises \<open>KeyError\<close>
  without the handler's message.\<close>

definition move_chess_piece :: "env \<Rightarrow> string \<Rightarrow> string \<Rightarrow> action" where
  "move_chess_piece w from_position to_position h =
    (case command_json w of
       File_not_found \<Rightarrow> (Inr (), h @ [Print Config_not_found])
     | Invalid_json \<Rightarrow> (Inr (), h @ [Print Config_invalid_json])
     | Other_failure m \<Rightarrow> (Inl (OSError m), h)
     | Parsed commands \<Rightarrow>
         if commands from_position = None
         then (Inr (), h @ [Print (Position_not_in_commands from_position)])
         else if commands to_position = None
         then (Inr (), h @ [Print (Position_not_in_commands to_position)])
         else
          (case POSITION_DATA from_position of
             None \<Rightarrow> (Inl (KeyError from_position), h)
           | Some from_data \<Rightarrow>
              (case POSITION_DATA to_position of
                 None \<Rightarrow> (Inl (KeyError to_position), h)
               | Some to_data \<Rightarrow>
                  (case move_steps w commands from_position to_position from_data to_data
                          (h @ [Print (Starting_move from_position to_position from_data to_data)]) of
                     (Inl e, h') \<Rightarrow>
                       if is_Exception e then (Inl e, h' @ [Print (Error_during_move e)])
                       else (Inl e, h')
                   | (Inr u, h') \<Rightarrow> (Inr u, h')))))"

section \<open>Command-line entry point\<close>

text \<open>Python's \<open>str.lower\<close> on the code points of the model: A-Z and the capital letters
  of Latin-1 (U+00C0 to U+00DE but the multiplication sign U+00D7) move up by 32.\<close>

definition lower_char :: "char \<Rightarrow> char" where
  "lower_char c =
    (let n = (of_char c :: nat) in
     if (65 \<le> n \<and> n \<le> 90) \<or> (192 \<le> n \<and> n \<le> 222 \<and> n \<noteq> 215) then char_of (n + 32) else c)"

definition lower :: "string \<Rightarrow> string" where
  "lower s = map lower_char s"

text \<open>\<open>print_position_info(position)\<close>, lines 276-289: silent for a position that is
  not in the table.\<close>

definition print_position_info :: "string \<Rightarrow> event list" where
  "print_position_info position =
    (case POSITION_DATA position of
       None \<Rightarrow> []
     | Some d \<Rightarrow> [Print (Position_info position d)])"

text \<open>\<open>main()\<close>, lines 291-329, on \<open>sys.argv = argv\<close>.\<close>

definition main :: "env \<Rightarrow> string list \<Rightarrow> action" where
  "main w argv h =
    (if length argv \<noteq> 3 then (Inr (), h @ [Print Invalid_argument_count, Print Usage])
     else
      (let from_position = lower (argv ! 1);
           to_position = lower (argv ! 2);
           (from_valid, from_msg) = validate_position from_position
       in if \<not> from_valid then (Inr (), h @ [Print (From_position_error from_msg), Print Usage])
          else
           (let (to_valid, to_msg) = validate_position to_position
            in if \<not> to_valid then (Inr (), h @ [Print (To_position_error to_msg), Print Usage])
               else if from_position = to_position then (Inr (), h @ [Print Same_positions])
               else move_chess_piece w from_position to_position
                      (h @ [Print Banner] @ print_position_info from_position
                         @ print_position_info to_position @ [Print Executing_move_sequence]))))"

text \<open>The \<open>__main__\<close> block, lines 331-338: the process exit status and everything
  that happened.\<close>

definition program :: "env \<Rightarrow> string list \<Rightarrow> nat \<times> event list" where
  "program w argv =
    (case main w argv [] of
       (Inr u, h) \<Rightarrow> (0, h)
     | (Inl KeyboardInterrupt, h) \<Rightarrow> (0, h @ [Print Move_interrupted])
     | (Inl e, h) \<Rightarrow> (1, h @ [Print (Unexpected_error e)]))"

section \<open>Notions of the specification\<close>

text \<open>The 64 coordinates: a column letter a-h followed by a row digit 1-8.\<close>

definition coordinates :: "string list" where
  "coordinates = concat (map (\<lambda>c. map (\<lambda>r. [c, r]) ''12345678'') ''abcdefgh'')"

text \<open>
  The validator's four rules as the specification words them, each as a predicate on the
  whole string: (a) length exactly 2, (b) first character in a-h, (c) second character in
  1-8, (d) the string is a key of the position table. \<open>first_violation\<close> is the first
  rule of that order that fails.
\<close>

datatype rule = Rule_a | Rule_b | Rule_c | Rule_d

fun rule_holds :: "rule \<Rightarrow> string \<Rightarrow> bool" where
  "rule_holds Rule_a s = (length s = 2)"
| "rule_holds Rule_b s = (case s of [] \<Rightarrow> False | c # cs \<Rightarrow> c \<in> set ''abcdefgh'')"
| "rule_holds Rule_c s = (case s of c # d # cs \<Rightarrow> d \<in> set ''12345678'' | _ \<Rightarrow> False)"
| "rule_holds Rule_d s = (s \<in> set (map fst POSITION_DATA_items))"

fun rule_message :: "rule \<Rightarrow> string \<Rightarrow> string" where
  "rule_message Rule_a s = msg_format"
| "rule_message Rule_b s = msg_column (s ! 0)"
| "rule_message Rule_c s = msg_row (s ! 1)"
| "rule_message Rule_d s = msg_unavailable s"

definition first_violation :: "string \<Rightarrow> rule option" where
  "first_violation s = find (\<lambda>r. \<not> rule_holds r s) [Rule_a, Rule_b, Rule_c, Rule_d]"

section \<open>Notions used in the verification\<close>

text \<open>The sequence executions that one call of \<open>execute_command_sequence\<close> issues for a
  label: the stored sequence, or none when the label is missing.\<close>

definition issued :: "(string \<rightharpoonup> step list) \<Rightarrow> string \<Rightarrow> step list list" where
  "issued commands l = (case commands l of None \<Rightarrow> [] | Some sq \<Rightarrow> [sq])"

text \<open>An action issues a plan: whatever the outcome, the sequence executions it adds to the
  trace are a prefix of the plan, and the whole plan when it returns normally.\<close>

definition issues :: "action \<Rightarrow> step list list \<Rightarrow> bool" where
  "issues f plan = (\<forall>h r h'. f h = (r, h') \<longrightarrow>
     (\<exists>d. executions h' = executions h @ d \<and> prefix d plan \<and> (r = Inr () \<longrightarrow> d = plan)))"

text \<open>The sequence executions of the eleven states of \<open>move_chess_piece\<close>, in order.\<close>

definition move_plan :: "(string \<rightharpoonup> step list) \<Rightarrow> string \<Rightarrow> string \<Rightarrow> position_entry \<Rightarrow> position_entry \<Rightarrow> step list list" where
  "move_plan commands from_position to_position from_data to_data =
     issued commands ''attack'' @ issued commands ''open'' @ issued commands from_position @
     issued commands ''close'' @
     [create_home_sequence (forward from_data) (rotation from_data)] @
     issued commands ''attack'' @ issued commands to_position @ issued commands ''open'' @
     [create_home_sequence (forward to_data) (rotation to_data)] @
     issued commands ''close'' @ issued commands ''move_for_cam''"

text \<open>A step the executor can replay: a delay, or a tool with its arguments.\<close>

definition well_formed :: "step \<Rightarrow> bool" where
  "well_formed s = (wait s \<noteq> None \<or> (tool s \<noteq> None \<and> args s \<noteq> None))"

text \<open>A trace is clean when no dispatch in it raised. An outcome is settled when either
  the trace is clean and no tool error is raised, or the tool error raised is that of the
  one failed dispatch of the trace, which is followed by the handlers' messages only.\<close>

definition clean :: "event list \<Rightarrow> bool" where
  "clean h = (filter failed_dispatch h = [])"

definition settled :: "(exn \<Rightarrow> event list) \<Rightarrow> (exn + unit) \<times> event list \<Rightarrow> bool" where
  "settled sfx res =
    ((clean (snd res) \<and> (\<forall>m. fst res \<noteq> Inl (ToolError m))) \<or>
     (\<exists>pre t a m. fst res = Inl (ToolError m) \<and> clean pre \<and>
        snd res = pre @ Dispatch t a (Raises m) # sfx (ToolError m)))"

definition guarded :: "(exn \<Rightarrow> event list) \<Rightarrow> action \<Rightarrow> bool" where
  "guarded sfx f = (\<forall>h. clean h \<longrightarrow> settled sfx (f h))"

subsection \<open>Example environments\<close>

text \<open>A small command store for the move from "d7" to "d5", with a remote interface
  that always answers; the same store without the label "close"; a remote interface whose
  gripper tool raises; and a missing configuration file.\<close>

definition example_items :: "(string \<times> step list) list" where
  "example_items =
    [(''attack'', [tool_step ''move_robot'' [(''move_gripper_forward_mm'', ''100'')]]),
     (''open'', [tool_step ''control_gripper'' [(''gripper_openness_pct'', ''100'')]]),
     (''close'', [tool_step ''control_gripper'' [(''gripper_openness_pct'', ''0'')]]),
     (''move_for_cam'', [wait_step 1, tool_step ''move_robot'' [(''move_gripper_up_mm'', ''120'')]]),
     (''d7'', [tool_step ''move_robot'' [(''move_gripper_forward_mm'', ''70'')]]),
     (''d5'', [tool_step ''move_robot'' [(''move_gripper_forward_mm'', ''150'')]])]"

definition example_env :: env where
  "example_env = \<lparr>command_json = Parsed (map_of example_items),
     open_session = (\<lambda>h. None), call_tool = (\<lambda>h t a. Result ''ok'')\<rparr>"

definition env_without_close :: env where
  "env_without_close = \<lparr>command_json = Parsed (map_of (filter (\<lambda>(l, sq). l \<noteq> ''close'') example_items)),
     open_session = (\<lambda>h. None), call_tool = (\<lambda>h t a. Result ''ok'')\<rparr>"

definition failing_env :: env where
  "failing_env = \<lparr>command_json = Parsed (map_of example_items),
     open_session = (\<lambda>h. None),
     call_tool = (\<lambda>h t a. if t = ''control_gripper'' then Raises ''timeout'' else Result ''ok'')\<rparr>"

definition env_missing_config :: env where
  "env_missing_config = \<lparr>command_json = File_not_found,
     open_session = (\<lambda>h. None), call_tool = (\<lambda>h t a. Result ''ok'')\<rparr>"

text \<open>A store that holds the two coordinate labels and none of the four fixed labels,
  with a remote interface that always answers.\<close>

definition square_items :: "(string \<times> step list) list" where
  "square_items =
    [(''d7'', [tool_step ''move_robot'' [(''move_gripper_forward_mm'', ''70'')]]),
     (''d5'', [tool_step ''move_robot'' [(''move_gripper_forward_mm'', ''150'')]])]"

definition env_only_squares :: env where
  "env_only_squares = \<lparr>command_json = Parsed (map_of square_items),
     open_session = (\<lambda>h. None), call_tool = (\<lambda>h t a. Result ''ok'')\<rparr>"

section \<open>The position table and the validator\<close>

lemma keys_coordinates: "set (map fst POSITION_DATA_items) = set coordinates"
  by code_simp

lemma keys_distinct: "distinct (map fst POSITION_DATA_items)"
  by (simp add: POSITION_DATA_items_def)

lemma dom_POSITION_DATA: "dom POSITION_DATA = set coordinates"
  unfolding POSITION_DATA_def dom_map_of_conv_image_fst using keys_coordinates by simp

lemma set_grid:
  "set (concat (map (\<lambda>c. map (\<lambda>r. [c, r]) rs) cs)) = {[c, r] | c r. c \<in> set cs \<and> r \<in> set rs}"
  by auto

lemma coordinates_set:
  "set coordinates = {[c, r] | c r. c \<in> set ''abcdefgh'' \<and> r \<in> set ''12345678''}"
  unfolding coordinates_def by (rule set_grid)

lemma two_chars_iff:
  "(\<exists>c r. s = [c, r] \<and> c \<in> C \<and> r \<in> R) \<longleftrightarrow> length s = 2 \<and> s ! 0 \<in> C \<and> s ! 1 \<in> R"
  by (auto simp: length_Suc_conv numeral_2_eq_2)

lemma coordinates_iff:
  "s \<in> set coordinates \<longleftrightarrow> length s = 2 \<and> s ! 0 \<in> set ''abcdefgh'' \<and> s ! 1 \<in> set ''12345678''"
  unfolding coordinates_set using two_chars_iff [of s "set ''abcdefgh''" "set ''12345678''"]
  by (simp del: list.set)

lemma in_table_iff:
  "s \<in> dom POSITION_DATA \<longleftrightarrow>
     length s = 2 \<and> s ! 0 \<in> set ''abcdefgh'' \<and> s ! 1 \<in> set ''12345678''"
  unfolding dom_POSITION_DATA by (rule coordinates_iff)

lemma dom_items: "dom POSITION_DATA = set (map fst POSITION_DATA_items)"
  by (simp add: POSITION_DATA_def dom_map_of_conv_image_fst)

lemma entries_in_range:
  "list_all (\<lambda>(k, e). 0 < forward e \<and> rotation e \<in> {-90, -67, -45, -22, 0, 22, 45, 67, 90})
     POSITION_DATA_items"
  by (simp add: POSITION_DATA_items_def entry_def)

lemma validate_position_valid_iff:
  "validate_position s = (True, ''Valid'') \<longleftrightarrow> s \<in> dom POSITION_DATA"
  unfolding validate_position_def in_table_iff by (simp del: list.set)

text \<open>
  C5: the position table has exactly one entry for each of the 64 coordinates (64 items,
  pairwise distinct keys, the key set is the set of all column-row pairs), and every entry
  has a forward value above 0 and a rotation in {-90, -67, -45, -22, 0, 22, 45, 67, 90}.
\<close>

theorem position_table_complete:
  "length POSITION_DATA_items = 64 \<and>
   distinct (map fst POSITION_DATA_items) \<and>
   set (map fst POSITION_DATA_items) =
     {[c, r] | c r. c \<in> set ''abcdefgh'' \<and> r \<in> set ''12345678''} \<and>
   (\<forall>(k, e) \<in> set POSITION_DATA_items.
      POSITION_DATA k = Some e \<and> 0 < forward e \<and>
      rotation e \<in> {-90, -67, -45, -22, 0, 22, 45, 67, 90})"
proof -
  have 1: "length POSITION_DATA_items = 64"
    by (simp add: POSITION_DATA_items_def)
  have 2: "set (map fst POSITION_DATA_items) =
     {[c, r] | c r. c \<in> set ''abcdefgh'' \<and> r \<in> set ''12345678''}"
    using keys_coordinates coordinates_set by simp
  have 3: "POSITION_DATA k = Some e" if "(k, e) \<in> set POSITION_DATA_items" for k e
    using that keys_distinct by (simp add: POSITION_DATA_def)
  have 4: "0 < forward e \<and> rotation e \<in> {-90, -67, -45, -22, 0, 22, 45, 67, 90}"
    if "(k, e) \<in> set POSITION_DATA_items" for k e
    using that entries_in_range unfolding list_all_iff by blast
  from 1 2 3 4 keys_distinct show ?thesis by blast
qed

theorem position_table_complete_witness:
  "(''d7'', entry 70 0) \<in> set POSITION_DATA_items \<and>
   POSITION_DATA ''d7'' = Some (entry 70 0) \<and> 0 < forward (entry 70 0) \<and>
   rotation (entry 70 0) \<in> {-90, -67, -45, -22, 0, 22, 45, 67, 90}"
proof -
  have m: "(''d7'', entry 70 0) \<in> set POSITION_DATA_items"
    by (simp add: POSITION_DATA_items_def)
  with position_table_complete show ?thesis by blast
qed

lemma validate_position_messages:
  "snd (validate_position s) \<in> {msg_format, msg_column (s ! 0), msg_row (s ! 1), ''Valid''}"
  unfolding validate_position_def in_table_iff by (simp del: list.set)

lemma msg_unavailable_differs:
  "msg_format \<noteq> msg_unavailable p" "msg_column c \<noteq> msg_unavailable p"
  "msg_row c \<noteq> msg_unavailable p" "''Valid'' \<noteq> msg_unavailable p"
  by (simp_all add: msg_format_def msg_column_def msg_row_def msg_unavailable_def)

text \<open>
  C9: a string of length 2 with a first character in a-h and a second in 1-8 is a key of the
  position table, so \<open>validate_position\<close> never answers with the message "not available
  in position data", whatever position the message would name.
\<close>

theorem validate_position_last_rule_unreachable:
  "(length s = 2 \<and> s ! 0 \<in> set ''abcdefgh'' \<and> s ! 1 \<in> set ''12345678''
      \<longrightarrow> s \<in> dom POSITION_DATA) \<and>
   snd (validate_position s) \<noteq> msg_unavailable p"
proof
  show "length s = 2 \<and> s ! 0 \<in> set ''abcdefgh'' \<and> s ! 1 \<in> set ''12345678''
      \<longrightarrow> s \<in> dom POSITION_DATA"
    using in_table_iff [of s] by blast
next
  from validate_position_messages [of s]
  have "snd (validate_position s) = msg_format \<or> snd (validate_position s) = msg_column (s ! 0)
      \<or> snd (validate_position s) = msg_row (s ! 1) \<or> snd (validate_position s) = ''Valid''"
    by blast
  then show "snd (validate_position s) \<noteq> msg_unavailable p"
    using msg_unavailable_differs [where p = p] by metis
qed

theorem validate_position_last_rule_unreachable_witness:
  "''g3'' \<in> dom POSITION_DATA \<and> snd (validate_position ''g3'') \<noteq> msg_unavailable ''g3''"
  using validate_position_last_rule_unreachable [of "''g3''" "''g3''"] by simp

lemma validate_position_first_violation:
  "validate_position s =
     (case first_violation s of None \<Rightarrow> (True, ''Valid'') | Some r \<Rightarrow> (False, rule_message r s))"
proof (cases "length s = 2")
  case False
  then show ?thesis by (simp add: validate_position_def first_violation_def)
next
  case True
  then obtain c r where s: "s = [c, r]"
    by (cases s; cases "tl s") auto
  show ?thesis
    unfolding s validate_position_def first_violation_def dom_items
    by (simp del: list.set)
qed

text \<open>
  C4: \<open>validate_position\<close> answers with the message of the first rule, in the order
  (a), (b), (c), (d), that the string violates, and accepts when there is none; "d7" is
  accepted, "i9" fails rule (b), "d" fails rule (a) and "D7" fails rule (b).
\<close>

theorem validate_position_ordered:
  "validate_position s =
     (case first_violation s of None \<Rightarrow> (True, ''Valid'') | Some r \<Rightarrow> (False, rule_message r s)) \<and>
   validate_position ''d7'' = (True, ''Valid'') \<and>
   first_violation ''i9'' = Some Rule_b \<and>
   validate_position ''i9'' = (False, ''Invalid column 'i'. Must be a-h.'') \<and>
   first_violation ''d'' = Some Rule_a \<and>
   validate_position ''d'' = (False, ''Invalid position format. Use format like 'd7', 'e5', etc.'') \<and>
   first_violation ''D7'' = Some Rule_b \<and>
   validate_position ''D7'' = (False, ''Invalid column 'D'. Must be a-h.'')"
proof -
  have "validate_position ''d7'' = (True, ''Valid'')"
    unfolding validate_position_valid_iff in_table_iff by simp
  moreover have "first_violation ''i9'' = Some Rule_b" "first_violation ''d'' = Some Rule_a"
    "first_violation ''D7'' = Some Rule_b"
    by (simp_all add: first_violation_def)
  moreover have "validate_position ''i9'' = (False, ''Invalid column 'i'. Must be a-h.'')"
    "validate_position ''d'' = (False, ''Invalid position format. Use format like 'd7', 'e5', etc.'')"
    "validate_position ''D7'' = (False, ''Invalid column 'D'. Must be a-h.'')"
    by (simp_all add: validate_position_def msg_column_def msg_format_def)
  ultimately show ?thesis using validate_position_first_violation by simp
qed

theorem validate_position_ordered_witness:
  "first_violation ''h1'' = None \<and> validate_position ''h1'' = (True, ''Valid'')"
proof -
  have "first_violation ''h1'' = None"
    by (simp add: first_violation_def POSITION_DATA_items_def)
  with validate_position_ordered [of "''h1''"] show ?thesis by simp
qed

text \<open>
  C3: \<open>create_home_sequence\<close> returns the four fixed instructions (gripper up 50, tilt
  -80, gripper up -75, forward by minus the distance) followed, exactly when the rotation is
  not 0, by a rotation by the negated angle; for (70, -90) that is 5 instructions ending
  with a rotation of 90, for (70, 0) the 4 fixed instructions only.
\<close>

theorem create_home_sequence_shape:
  "create_home_sequence f r =
     [tool_step ''move_robot'' [(''move_gripper_up_mm'', ''50'')],
      tool_step ''move_robot'' [(''tilt_gripper_down_angle'', ''-80'')],
      tool_step ''move_robot'' [(''move_gripper_up_mm'', ''-75'')],
      tool_step ''move_robot'' [(''move_gripper_forward_mm'', ''-'' @ str_int f)]]
     @ (if r = 0 then []
        else [tool_step ''move_robot'' [(''rotate_robot_right_angle'', str_int (- r))]]) \<and>
   length (create_home_sequence f r) = (if r = 0 then 4 else 5) \<and>
   create_home_sequence 70 (-90) =
     [tool_step ''move_robot'' [(''move_gripper_up_mm'', ''50'')],
      tool_step ''move_robot'' [(''tilt_gripper_down_angle'', ''-80'')],
      tool_step ''move_robot'' [(''move_gripper_up_mm'', ''-75'')],
      tool_step ''move_robot'' [(''move_gripper_forward_mm'', ''-70'')],
      tool_step ''move_robot'' [(''rotate_robot_right_angle'', ''90'')]] \<and>
   create_home_sequence 70 0 =
     [tool_step ''move_robot'' [(''move_gripper_up_mm'', ''50'')],
      tool_step ''move_robot'' [(''tilt_gripper_down_angle'', ''-80'')],
      tool_step ''move_robot'' [(''move_gripper_up_mm'', ''-75'')],
      tool_step ''move_robot'' [(''move_gripper_forward_mm'', ''-70'')]]"
proof -
  have s70: "str_int 70 = ''70''" and s90: "str_int 90 = ''90''"
    by code_simp+
  show ?thesis
    by (simp add: create_home_sequence_def Let_def s70 s90)
qed

theorem create_home_sequence_shape_witness:
  "length (create_home_sequence 150 22) = 5 \<and>
   create_home_sequence 150 22 ! 4 = tool_step ''move_robot'' [(''rotate_robot_right_angle'', ''-22'')]"
proof -
  have "str_int (- 22) = ''-22''" by code_simp
  with create_home_sequence_shape [of 150 22] show ?thesis by simp
qed

section \<open>The orchestrator's plan\<close>

lemma executions_append: "executions (xs @ ys) = executions xs @ executions ys"
  by (induction xs rule: executions.induct) simp_all

lemma run_steps_executions:
  "run_steps w ss h = (r, h') \<Longrightarrow> executions h' = executions h"
proof (induction ss arbitrary: h)
  case Nil
  then show ?case by simp
next
  case (Cons s ss)
  then show ?case
    by (auto simp: executions_append Let_def split: option.splits outcome.splits)
qed

lemma execute_robot_sequence_executions:
  "execute_robot_sequence w sq h = (r, h') \<Longrightarrow> executions h' = executions h @ [sq]"
  unfolding execute_robot_sequence_def Let_def
  by (auto simp: executions_append split: option.splits prod.splits sum.splits if_splits
      dest: run_steps_executions)

lemma execute_command_sequence_executions:
  "execute_command_sequence w l commands h = (r, h') \<Longrightarrow>
     executions h' = executions h @ issued commands l"
  unfolding execute_command_sequence_def issued_def
  by (auto simp: executions_append split: option.splits dest: execute_robot_sequence_executions)

lemma issues_exact:
  "(\<And>h r h'. f h = (r, h') \<Longrightarrow> executions h' = executions h @ plan) \<Longrightarrow> issues f plan"
  unfolding issues_def by blast

lemma issues_and_then:
  assumes f: "issues f p" and g: "issues g q"
  shows "issues (and_then f g) (p @ q)"
  unfolding issues_def
proof (intro allI impI)
  fix h r h'
  assume run: "and_then f g h = (r, h')"
  obtain r1 h1 where fh: "f h = (r1, h1)" by (cases "f h")
  from f fh obtain d1 where d1: "executions h1 = executions h @ d1" "prefix d1 p"
    "r1 = Inr () \<longrightarrow> d1 = p"
    unfolding issues_def by blast
  show "\<exists>d. executions h' = executions h @ d \<and> prefix d (p @ q) \<and> (r = Inr () \<longrightarrow> d = p @ q)"
  proof (cases r1)
    case (Inl e)
    with run fh have "r = Inl e" "h' = h1" by (simp_all add: and_then_def)
    with d1 show ?thesis by (auto intro: prefix_prefix)
  next
    case (Inr u)
    with run fh have gh: "g h1 = (r, h')" by (simp add: and_then_def)
    from g gh obtain d2 where d2: "executions h' = executions h1 @ d2" "prefix d2 q"
      "r = Inr () \<longrightarrow> d2 = q"
      unfolding issues_def by blast
    from Inr d1 have "d1 = p" by simp
    with d1 d2 show ?thesis by auto
  qed
qed

lemma issues_emit: "issues (emit m) []"
  unfolding issues_def emit_def by (auto simp: executions_append)

lemma issues_command: "issues (execute_command_sequence w l commands) (issued commands l)"
  by (rule issues_exact) (rule execute_command_sequence_executions)

lemma issues_robot: "issues (execute_robot_sequence w sq) [sq]"
  by (rule issues_exact) (rule execute_robot_sequence_executions)

lemma issues_move_steps:
  "issues (move_steps w commands fp tp fd td) (move_plan commands fp tp fd td)"
proof -
  have "issues (move_steps w commands fp tp fd td)
     (issued commands ''attack'' @ issued commands ''open'' @ issued commands fp @
      issued commands ''close'' @ [] @
      [create_home_sequence (forward fd) (rotation fd)] @
      issued commands ''attack'' @ issued commands tp @ issued commands ''open'' @ [] @
      [create_home_sequence (forward td) (rotation td)] @
      issued commands ''close'' @ issued commands ''move_for_cam'' @ [])"
    unfolding move_steps_def
    by (intro issues_and_then issues_command issues_robot issues_emit)
  then show ?thesis by (simp add: move_plan_def)
qed

lemma run_steps_completes:
  assumes "\<And>h t a. \<exists>r. call_tool w h t a = Result r" and "list_all well_formed ss"
  shows "fst (run_steps w ss h) = Inr ()"
  using assms(2)
proof (induction ss arbitrary: h)
  case Nil
  then show ?case by simp
next
  case (Cons s ss)
  show ?case
  proof (cases "wait s")
    case (Some t)
    with Cons show ?thesis by simp
  next
    case None
    with Cons.prems obtain tn ta where ta: "tool s = Some tn" "args s = Some ta"
      by (auto simp: well_formed_def)
    from assms(1) obtain r where "call_tool w (h @ [Print (Executing_tool tn ta)]) tn ta = Result r"
      by blast
    with None ta Cons show ?thesis by (simp add: Let_def)
  qed
qed

lemma execute_robot_sequence_completes:
  assumes "\<And>h. open_session w h = None" and "\<And>h t a. \<exists>r. call_tool w h t a = Result r"
    and "list_all well_formed sq"
  shows "fst (execute_robot_sequence w sq h) = Inr ()"
proof -
  have "fst (run_steps w sq (h @ [Open_session sq])) = Inr ()"
    using assms(2,3) by (rule run_steps_completes)
  then obtain h1 where "run_steps w sq (h @ [Open_session sq]) = (Inr (), h1)"
    by (cases "run_steps w sq (h @ [Open_session sq])") auto
  then show ?thesis
    unfolding execute_robot_sequence_def Let_def
    by (simp add: assms(1))
qed

lemma execute_command_sequence_completes:
  assumes "\<And>h. open_session w h = None" and "\<And>h t a. \<exists>r. call_tool w h t a = Result r"
    and "\<And>l sq. commands l = Some sq \<Longrightarrow> list_all well_formed sq"
  shows "fst (execute_command_sequence w l commands h) = Inr ()"
  unfolding execute_command_sequence_def
  by (auto split: option.splits intro!: execute_robot_sequence_completes assms)

lemma and_then_completes:
  assumes "\<And>h. fst (f h) = Inr ()" and "\<And>h. fst (g h) = Inr ()"
  shows "fst (and_then f g h) = Inr ()"
  using assms(1) [of h] assms(2) [of "snd (f h)"]
  by (cases "f h") (auto simp: and_then_def split: sum.splits)

lemma create_home_sequence_well_formed: "list_all well_formed (create_home_sequence f r)"
  by (simp add: create_home_sequence_def Let_def well_formed_def tool_step_def)

lemma move_steps_completes:
  assumes "\<And>h. open_session w h = None" and "\<And>h t a. \<exists>r. call_tool w h t a = Result r"
    and "\<And>l sq. commands l = Some sq \<Longrightarrow> list_all well_formed sq"
  shows "fst (move_steps w commands fp tp fd td h) = Inr ()"
  unfolding move_steps_def
  by (intro and_then_completes execute_command_sequence_completes
      execute_robot_sequence_completes create_home_sequence_well_formed assms)
    (simp_all add: emit_def)

lemma move_chess_piece_completes:
  assumes "\<And>h. open_session w h = None" and "\<And>h t a. \<exists>r. call_tool w h t a = Result r"
    and "command_json w = Parsed commands"
    and "\<And>l sq. commands l = Some sq \<Longrightarrow> list_all well_formed sq"
    and "commands fp \<noteq> None" "commands tp \<noteq> None"
    and "POSITION_DATA fp = Some fd" "POSITION_DATA tp = Some td"
  shows "fst (move_chess_piece w fp tp h) = Inr ()"
proof -
  have "fst (move_steps w commands fp tp fd td (h @ [Print (Starting_move fp tp fd td)])) = Inr ()"
    using assms(1,2,4) by (rule move_steps_completes)
  then obtain h1 where
    "move_steps w commands fp tp fd td (h @ [Print (Starting_move fp tp fd td)]) = (Inr (), h1)"
    by (cases "move_steps w commands fp tp fd td (h @ [Print (Starting_move fp tp fd td)])") auto
  then show ?thesis
    unfolding move_chess_piece_def using assms(3,5-8)
    by auto
qed

lemma move_chess_piece_issues:
  assumes "command_json w = Parsed commands"
    and "commands fp \<noteq> None" "commands tp \<noteq> None"
    and "POSITION_DATA fp = Some fd" "POSITION_DATA tp = Some td"
  shows "issues (move_chess_piece w fp tp) (move_plan commands fp tp fd td)"
  unfolding issues_def
proof (intro allI impI)
  fix h r h'
  assume run: "move_chess_piece w fp tp h = (r, h')"
  let ?h0 = "h @ [Print (Starting_move fp tp fd td)]"
  obtain r1 h1 where ms: "move_steps w commands fp tp fd td ?h0 = (r1, h1)"
    by (cases "move_steps w commands fp tp fd td ?h0")
  with issues_move_steps [of w commands fp tp fd td]
  obtain d where d: "executions h1 = executions ?h0 @ d" "prefix d (move_plan commands fp tp fd td)"
    "r1 = Inr () \<longrightarrow> d = move_plan commands fp tp fd td"
    unfolding issues_def by blast
  from run ms assms have "r = r1 \<and> executions h' = executions h1"
    unfolding move_chess_piece_def
    by (auto simp: executions_append split: sum.splits if_splits)
  with d show "\<exists>d. executions h' = executions h @ d \<and> prefix d (move_plan commands fp tp fd td) \<and>
      (r = Inr () \<longrightarrow> d = move_plan commands fp tp fd td)"
    by (auto simp: executions_append)
qed

text \<open>
  C1 (as amended): for a validated pair of coordinates that are labels of a command store
  which also holds "attack", "open", "close" and "move_for_cam", \<open>move_chess_piece\<close> issues the
  sequence executions "attack", "open", source, "close", home of the source entry, "attack",
  destination, "open", home of the destination entry, "close", "move_for_cam": whatever
  happens, the executions issued are a prefix of these eleven, in this order and without
  repetition, and when the move returns without an exception they are exactly the eleven.
\<close>

theorem move_chess_piece_eleven_executions:
  assumes "command_json w = Parsed commands"
    and "validate_position from_position = (True, ''Valid'')"
    and "validate_position to_position = (True, ''Valid'')"
    and "POSITION_DATA from_position = Some from_data"
    and "POSITION_DATA to_position = Some to_data"
    and "commands from_position = Some from_sequence"
    and "commands to_position = Some to_sequence"
    and "commands ''attack'' = Some attack"
    and "commands ''open'' = Some opn"
    and "commands ''close'' = Some cls"
    and "commands ''move_for_cam'' = Some move_for_cam"
    and "move_chess_piece w from_position to_position h = (r, h')"
  shows "\<exists>d. executions h' = executions h @ d \<and>
     prefix d [attack, opn, from_sequence, cls,
        create_home_sequence (forward from_data) (rotation from_data),
        attack, to_sequence, opn,
        create_home_sequence (forward to_data) (rotation to_data),
        cls, move_for_cam] \<and>
     (r = Inr () \<longrightarrow>
        d = [attack, opn, from_sequence, cls,
        create_home_sequence (forward from_data) (rotation from_data),
        attack, to_sequence, opn,
        create_home_sequence (forward to_data) (rotation to_data),
        cls, move_for_cam])"
proof -
  have "issues (move_chess_piece w from_position to_position)
     (move_plan commands from_position to_position from_data to_data)"
    using assms(1,4-7) by (intro move_chess_piece_issues) simp_all
  moreover have "move_plan commands from_position to_position from_data to_data =
     [attack, opn, from_sequence, cls,
        create_home_sequence (forward from_data) (rotation from_data),
        attack, to_sequence, opn,
        create_home_sequence (forward to_data) (rotation to_data),
        cls, move_for_cam]"
    using assms(6-11) by (simp add: move_plan_def issued_def)
  ultimately show ?thesis using assms(12) unfolding issues_def by metis
qed

lemma example_store_well_formed:
  "map_of example_items l = Some sq \<Longrightarrow> list_all well_formed sq"
  by (auto simp: example_items_def well_formed_def tool_step_def wait_step_def split: if_splits)

lemma example_lookup:
  "map_of example_items ''attack'' = Some [tool_step ''move_robot'' [(''move_gripper_forward_mm'', ''100'')]]"
  "map_of example_items ''open'' = Some [tool_step ''control_gripper'' [(''gripper_openness_pct'', ''100'')]]"
  "map_of example_items ''close'' = Some [tool_step ''control_gripper'' [(''gripper_openness_pct'', ''0'')]]"
  "map_of example_items ''move_for_cam'' =
     Some [wait_step 1, tool_step ''move_robot'' [(''move_gripper_up_mm'', ''120'')]]"
  "map_of example_items ''d7'' = Some [tool_step ''move_robot'' [(''move_gripper_forward_mm'', ''70'')]]"
  "map_of example_items ''d5'' = Some [tool_step ''move_robot'' [(''move_gripper_forward_mm'', ''150'')]]"
  by (simp_all add: example_items_def)

section \<open>Failures of the remote interface\<close>

lemma clean_append [simp]: "clean (xs @ ys) \<longleftrightarrow> clean xs \<and> clean ys"
  by (simp add: clean_def)

lemma clean_simps [simp]:
  "clean []" "clean (Print msg # es) = clean es" "clean (Sleep s # es) = clean es"
  "clean (Open_session sq # es) = clean es"
  "clean (Dispatch t a (Result r) # es) = clean es"
  "clean (Dispatch t a Interrupted # es) = clean es"
  "\<not> clean (Dispatch t a (Raises m) # es)"
  by (simp_all add: clean_def)

lemma run_steps_settled: "clean h \<Longrightarrow> settled (\<lambda>e. []) (run_steps w ss h)"
proof (induction ss arbitrary: h)
  case Nil
  then show ?case by (simp add: settled_def)
next
  case (Cons s ss)
  show ?case
  proof (cases "wait s")
    case (Some t)
    with Cons show ?thesis by simp
  next
    case None
    note w = this
    show ?thesis
    proof (cases "tool s")
      case None
      with w Cons.prems show ?thesis by (simp add: settled_def)
    next
      case (Some tn)
      note t = this
      show ?thesis
      proof (cases "args s")
        case None
        with w t Cons.prems show ?thesis by (simp add: settled_def)
      next
        case (Some ta)
        show ?thesis
        proof (cases "call_tool w (h @ [Print (Executing_tool tn ta)]) tn ta")
          case (Result r)
          with w t Some Cons show ?thesis by (simp add: Let_def)
        next
          case (Raises m)
          have "clean (h @ [Print (Executing_tool tn ta)])" using Cons.prems by simp
          with w t Some Raises show ?thesis
            unfolding settled_def by (simp add: Let_def)
        next
          case Interrupted
          with w t Some Cons.prems show ?thesis by (simp add: settled_def Let_def)
        qed
      qed
    qed
  qed
qed

lemma execute_robot_sequence_settled:
  "guarded (\<lambda>e. [Print (Error_executing_sequence e)]) (execute_robot_sequence w sq)"
  unfolding guarded_def
proof (intro allI impI)
  fix h assume h: "clean h"
  let ?h0 = "h @ [Open_session sq]"
  show "settled (\<lambda>e. [Print (Error_executing_sequence e)]) (execute_robot_sequence w sq h)"
  proof (cases "open_session w ?h0")
    case (Some m)
    with h show ?thesis by (simp add: execute_robot_sequence_def settled_def)
  next
    case None
    obtain r1 h1 where rs: "run_steps w sq ?h0 = (r1, h1)" by (cases "run_steps w sq ?h0")
    from h have "settled (\<lambda>e. []) (run_steps w sq ?h0)" by (intro run_steps_settled) simp
    with rs consider (ok) "clean h1" "\<forall>m. r1 \<noteq> Inl (ToolError m)"
      | (bad) pre t a m where "r1 = Inl (ToolError m)" "clean pre" "h1 = pre @ [Dispatch t a (Raises m)]"
      unfolding settled_def by auto
    then show ?thesis
    proof cases
      case ok
      with None rs show ?thesis
        by (cases r1) (auto simp: execute_robot_sequence_def settled_def)
    next
      case bad
      with None rs show ?thesis
        by (auto simp: execute_robot_sequence_def settled_def)
    qed
  qed
qed

lemma guarded_command:
  "guarded (\<lambda>e. [Print (Error_executing_sequence e)]) (execute_command_sequence w l commands)"
proof (cases "commands l")
  case None
  then show ?thesis by (simp add: guarded_def execute_command_sequence_def settled_def)
next
  case (Some sq)
  with execute_robot_sequence_settled [of w sq] show ?thesis
    by (simp add: guarded_def execute_command_sequence_def)
qed

lemma guarded_emit: "guarded sfx (emit m)"
  by (simp add: guarded_def emit_def settled_def)

lemma guarded_and_then:
  assumes "guarded sfx f" and "guarded sfx g"
  shows "guarded sfx (and_then f g)"
  unfolding guarded_def
proof (intro allI impI)
  fix h assume h: "clean h"
  obtain r1 h1 where fh: "f h = (r1, h1)" by (cases "f h")
  from assms(1) h fh have s1: "settled sfx (r1, h1)" unfolding guarded_def by metis
  show "settled sfx (and_then f g h)"
  proof (cases r1)
    case (Inl e)
    with fh s1 show ?thesis by (simp add: and_then_def)
  next
    case (Inr u)
    with s1 have "clean h1" by (auto simp: settled_def)
    with assms(2) have "settled sfx (g h1)" unfolding guarded_def by blast
    with fh Inr show ?thesis by (simp add: and_then_def)
  qed
qed

lemma guarded_move_steps:
  "guarded (\<lambda>e. [Print (Error_executing_sequence e)]) (move_steps w commands fp tp fd td)"
  unfolding move_steps_def
  by (intro guarded_and_then guarded_command execute_robot_sequence_settled guarded_emit)

lemma guarded_move_chess_piece:
  "guarded (\<lambda>e. [Print (Error_executing_sequence e), Print (Error_during_move e)])
     (move_chess_piece w fp tp)"
  unfolding guarded_def
proof (intro allI impI)
  fix h assume h: "clean h"
  show "settled (\<lambda>e. [Print (Error_executing_sequence e), Print (Error_during_move e)])
     (move_chess_piece w fp tp h)"
  proof (cases "command_json w")
    case (Parsed commands)
    show ?thesis
    proof (cases "commands fp = None \<or> commands tp = None \<or> POSITION_DATA fp = None
        \<or> POSITION_DATA tp = None")
      case True
      with Parsed h show ?thesis
        by (auto simp: move_chess_piece_def settled_def split: option.splits)
    next
      case False
      then obtain fd td where pd: "POSITION_DATA fp = Some fd" "POSITION_DATA tp = Some td"
        and cs: "commands fp \<noteq> None" "commands tp \<noteq> None" by auto
      let ?h0 = "h @ [Print (Starting_move fp tp fd td)]"
      obtain r1 h1 where ms: "move_steps w commands fp tp fd td ?h0 = (r1, h1)"
        by (cases "move_steps w commands fp tp fd td ?h0")
      from h have "clean ?h0" by simp
      with guarded_move_steps [of w commands fp tp fd td] ms
      have "settled (\<lambda>e. [Print (Error_executing_sequence e)]) (r1, h1)"
        unfolding guarded_def by metis
      then consider (ok) "clean h1" "\<forall>m. r1 \<noteq> Inl (ToolError m)"
        | (bad) pre t a m where "r1 = Inl (ToolError m)" "clean pre"
            "h1 = pre @ [Dispatch t a (Raises m), Print (Error_executing_sequence (ToolError m))]"
        unfolding settled_def by auto
      then show ?thesis
      proof cases
        case ok
        with Parsed pd cs ms show ?thesis
          by (cases r1) (auto simp: move_chess_piece_def settled_def)
      next
        case bad
        with Parsed pd cs ms show ?thesis
          by (auto simp: move_chess_piece_def settled_def)
      qed
    qed
  qed (use h in \<open>simp_all add: move_chess_piece_def settled_def\<close>)
qed

lemma guarded_main:
  "guarded (\<lambda>e. [Print (Error_executing_sequence e), Print (Error_during_move e)]) (main w argv)"
  unfolding guarded_def
proof (intro allI impI)
  fix h assume h: "clean h"
  let ?sfx = "\<lambda>e. [Print (Error_executing_sequence e), Print (Error_during_move e)]"
  have pi: "clean (print_position_info p)" for p
    by (simp add: print_position_info_def split: option.splits)
  have "settled ?sfx (move_chess_piece w fp tp
      (h @ [Print Banner] @ print_position_info fp @ print_position_info tp
         @ [Print Executing_move_sequence]))" for fp tp
    using guarded_move_chess_piece [of w fp tp] h pi unfolding guarded_def by simp
  with h show "settled ?sfx (main w argv h)"
    by (auto simp: main_def Let_def settled_def [of _ "(Inr (), _)"] split: prod.splits)
qed

text \<open>
  C6: when a dispatch raises during a run of the program, the exit status is 1 and the
  failed dispatch is the last action on the robot: the trace ends with it, followed only by
  the messages of the three handlers (executor, orchestrator, top level), so the rest of the
  sequence and of the move is abandoned, and nothing is dispatched again. No dispatch before
  it had failed.
\<close>

theorem dispatch_failure_propagates:
  assumes "program w argv = (code, tr)"
    and "Dispatch t a (Raises m) \<in> set tr"
  shows "code = 1 \<and>
    (\<exists>pre. tr = pre @ [Dispatch t a (Raises m),
                       Print (Error_executing_sequence (ToolError m)),
                       Print (Error_during_move (ToolError m)),
                       Print (Unexpected_error (ToolError m))] \<and>
           filter failed_dispatch pre = [])"
proof -
  obtain r h where mn: "main w argv [] = (r, h)" by (cases "main w argv []")
  have "settled (\<lambda>e. [Print (Error_executing_sequence e), Print (Error_during_move e)]) (r, h)"
    using guarded_main [of w argv] mn unfolding guarded_def by (metis clean_simps(1))
  then consider (ok) "clean h" "\<forall>m. r \<noteq> Inl (ToolError m)"
    | (bad) pre t' a' m' where "r = Inl (ToolError m')" "clean pre"
        "h = pre @ [Dispatch t' a' (Raises m'), Print (Error_executing_sequence (ToolError m')),
                    Print (Error_during_move (ToolError m'))]"
    unfolding settled_def by auto
  then show ?thesis
  proof cases
    case ok
    from assms(1) mn have "clean tr"
      using ok(1) by (auto simp: program_def split: sum.splits exn.splits)
    with assms(2) have False
      unfolding clean_def by (auto simp: filter_empty_conv)
    then show ?thesis ..
  next
    case bad
    with assms(1) mn have tr: "code = 1" "tr = pre @ [Dispatch t' a' (Raises m'),
        Print (Error_executing_sequence (ToolError m')),
        Print (Error_during_move (ToolError m')), Print (Unexpected_error (ToolError m'))]"
      by (auto simp: program_def)
    from bad(2) have "Dispatch t a (Raises m) \<notin> set pre"
      unfolding clean_def by (auto simp: filter_empty_conv)
    with assms(2) tr have "t' = t \<and> a' = a \<and> m' = m" by auto
    with tr bad(2) show ?thesis by (auto simp: clean_def)
  qed
qed

section \<open>Runs of the examples, configuration errors and the command line\<close>

lemma table_d7_d5:
  "POSITION_DATA ''d7'' = Some (entry 70 0)" "POSITION_DATA ''d5'' = Some (entry 150 0)"
  by (simp_all add: POSITION_DATA_def POSITION_DATA_items_def)

lemma valid_d7_d5:
  "validate_position ''d7'' = (True, ''Valid'')" "validate_position ''d5'' = (True, ''Valid'')"
  unfolding validate_position_valid_iff in_table_iff by simp_all

theorem move_chess_piece_eleven_executions_witness:
  "fst (move_chess_piece example_env ''d7'' ''d5'' []) = Inr () \<and>
   executions (snd (move_chess_piece example_env ''d7'' ''d5'' [])) =
     [[tool_step ''move_robot'' [(''move_gripper_forward_mm'', ''100'')]],
      [tool_step ''control_gripper'' [(''gripper_openness_pct'', ''100'')]],
      [tool_step ''move_robot'' [(''move_gripper_forward_mm'', ''70'')]],
      [tool_step ''control_gripper'' [(''gripper_openness_pct'', ''0'')]],
      create_home_sequence 70 0,
      [tool_step ''move_robot'' [(''move_gripper_forward_mm'', ''100'')]],
      [tool_step ''move_robot'' [(''move_gripper_forward_mm'', ''150'')]],
      [tool_step ''control_gripper'' [(''gripper_openness_pct'', ''100'')]],
      create_home_sequence 150 0,
      [tool_step ''control_gripper'' [(''gripper_openness_pct'', ''0'')]],
      [wait_step 1, tool_step ''move_robot'' [(''move_gripper_up_mm'', ''120'')]]]"
proof -
  have cfg: "command_json example_env = Parsed (map_of example_items)"
    by (simp add: example_env_def)
  have ok: "fst (move_chess_piece example_env ''d7'' ''d5'' []) = Inr ()"
    by (rule move_chess_piece_completes [OF _ _ cfg example_store_well_formed _ _ table_d7_d5])
      (simp_all add: example_env_def example_lookup)
  obtain r h' where run: "move_chess_piece example_env ''d7'' ''d5'' [] = (r, h')"
    by (cases "move_chess_piece example_env ''d7'' ''d5'' []")
  from move_chess_piece_eleven_executions [OF cfg valid_d7_d5 table_d7_d5
      example_lookup(5) example_lookup(6) example_lookup(1) example_lookup(2)
      example_lookup(3) example_lookup(4) run]
    ok run
  show ?thesis by (simp add: entry_def)
qed

text \<open>
  Counterexample to C1 as it is stated (eleven executions for every validated pair of
  distinct coordinates present in the store): "d7" and "d5" are validated, distinct and
  labels of a store that holds nothing else; the move returns normally after four sequence
  executions, the two coordinate sequences and the two home sequences.
\<close>

theorem fixed_labels_missing_four_executions:
  "validate_position ''d7'' = (True, ''Valid'') \<and>
   validate_position ''d5'' = (True, ''Valid'') \<and>
   ''d7'' \<noteq> ''d5'' \<and>
   map_of square_items ''d7'' = Some [tool_step ''move_robot'' [(''move_gripper_forward_mm'', ''70'')]] \<and>
   map_of square_items ''d5'' = Some [tool_step ''move_robot'' [(''move_gripper_forward_mm'', ''150'')]] \<and>
   command_json env_only_squares = Parsed (map_of square_items) \<and>
   fst (move_chess_piece env_only_squares ''d7'' ''d5'' []) = Inr () \<and>
   executions (snd (move_chess_piece env_only_squares ''d7'' ''d5'' [])) =
     [[tool_step ''move_robot'' [(''move_gripper_forward_mm'', ''70'')]],
      create_home_sequence 70 0,
      [tool_step ''move_robot'' [(''move_gripper_forward_mm'', ''150'')]],
      create_home_sequence 150 0]"
proof -
  have run: "fst (move_chess_piece env_only_squares ''d7'' ''d5'' []) = Inr () \<and>
   executions (snd (move_chess_piece env_only_squares ''d7'' ''d5'' [])) =
     [[tool_step ''move_robot'' [(''move_gripper_forward_mm'', ''70'')]],
      create_home_sequence 70 0,
      [tool_step ''move_robot'' [(''move_gripper_forward_mm'', ''150'')]],
      create_home_sequence 150 0]"
    by code_simp
  have store: "map_of square_items ''d7'' =
      Some [tool_step ''move_robot'' [(''move_gripper_forward_mm'', ''70'')]]"
    "map_of square_items ''d5'' =
      Some [tool_step ''move_robot'' [(''move_gripper_forward_mm'', ''150'')]]"
    by (simp_all add: square_items_def)
  have cfg: "command_json env_only_squares = Parsed (map_of square_items)"
    by (simp add: env_only_squares_def)
  from run store cfg valid_d7_d5 show ?thesis by simp
qed

lemma lower_d7_d5: "lower ''d7'' = ''d7''" "lower ''d5'' = ''d5''" "lower ''D7'' = ''d7''"
  "lower ''e4'' = ''e4''"
  by code_simp+

lemma failing_run:
  "Dispatch ''control_gripper'' [(''gripper_openness_pct'', ''100'')] (Raises ''timeout'')
     \<in> set (snd (program failing_env [''app_v2.py'', ''d7'', ''d5'']))"
  by code_simp

theorem dispatch_failure_propagates_witness:
  "fst (program failing_env [''app_v2.py'', ''d7'', ''d5'']) = 1 \<and>
   (\<exists>pre. snd (program failing_env [''app_v2.py'', ''d7'', ''d5'']) =
      pre @ [Dispatch ''control_gripper'' [(''gripper_openness_pct'', ''100'')] (Raises ''timeout''),
             Print (Error_executing_sequence (ToolError ''timeout'')),
             Print (Error_during_move (ToolError ''timeout'')),
             Print (Unexpected_error (ToolError ''timeout''))])"
proof -
  obtain code tr where run: "program failing_env [''app_v2.py'', ''d7'', ''d5''] = (code, tr)"
    by (cases "program failing_env [''app_v2.py'', ''d7'', ''d5'']")
  with failing_run have "Dispatch ''control_gripper'' [(''gripper_openness_pct'', ''100'')]
     (Raises ''timeout'') \<in> set tr" by simp
  from dispatch_failure_propagates [OF run this] run show ?thesis by auto
qed

lemma run_steps_aborts:
  assumes "wait s = None" "tool s = Some t" "args s = Some a"
    and "call_tool w (h @ [Print (Executing_tool t a)]) t a = Raises m"
  shows "run_steps w (s # rest) h =
    (Inl (ToolError m), h @ [Print (Executing_tool t a), Dispatch t a (Raises m)])"
  using assms by (simp add: Let_def)

text \<open>
  C7: when \<open>command.json\<close> is missing or is not valid JSON, \<open>move_chess_piece\<close> prints
  the message for that case and returns; the trace gains this message and nothing else, so
  no session is opened and no instruction is dispatched.
\<close>

theorem config_error_no_motion:
  "(command_json w = File_not_found \<longrightarrow>
      move_chess_piece w from_position to_position h = (Inr (), h @ [Print Config_not_found])) \<and>
   (command_json w = Invalid_json \<longrightarrow>
      move_chess_piece w from_position to_position h = (Inr (), h @ [Print Config_invalid_json]))"
  by (simp add: move_chess_piece_def)

theorem config_error_no_motion_witness:
  "move_chess_piece env_missing_config ''d7'' ''d5'' [] = (Inr (), [Print Config_not_found])"
  using config_error_no_motion [of env_missing_config "''d7''" "''d5''" "[]"]
  by (simp add: env_missing_config_def)

text \<open>
  C8: when both arguments name the same position (after lowercasing), \<open>main\<close> returns
  without issuing a sequence execution: it prints "positions cannot be the same" when the
  validator accepts the position, and the validation error otherwise. The validator gives
  both arguments the same verdict: the equality test is \<open>main\<close>'s.
\<close>

theorem same_position_rejected:
  assumes "lower a = lower b"
  shows "main w [p, a, b] h =
      (Inr (), h @ (if fst (validate_position (lower a)) then [Print Same_positions]
                    else [Print (From_position_error (snd (validate_position (lower a)))),
                          Print Usage])) \<and>
    validate_position (lower b) = validate_position (lower a) \<and>
    executions (snd (main w [p, a, b] h)) = executions h"
  using assms by (simp add: main_def Let_def executions_append split: prod.splits)

theorem same_position_rejected_witness:
  "validate_position ''e4'' = (True, ''Valid'') \<and>
   main example_env [''app_v2.py'', ''e4'', ''e4''] [] = (Inr (), [Print Same_positions])"
proof -
  have v: "validate_position ''e4'' = (True, ''Valid'')"
    unfolding validate_position_valid_iff in_table_iff by simp
  with same_position_rejected [of "''e4''" "''e4''" example_env "''app_v2.py''" "[]"]
  show ?thesis by (simp add: lower_d7_d5)
qed

lemma lower_char_idem: "lower_char (lower_char c) = lower_char c"
proof -
  have "of_char (char_of (of_char c + 32 :: nat)) = (of_char c + 32 :: nat)"
    if "(of_char c :: nat) \<le> 222" 
    using that by (simp add: of_char_of)
  then show ?thesis
    unfolding lower_char_def Let_def by auto
qed

lemma lower_idem: "lower (lower s) = lower s"
  by (simp add: lower_def lower_char_idem)

text \<open>
  C10: \<open>main\<close> works on the lowercased arguments: it behaves on any two arguments as on
  their lowercase forms, and when these are valid and differ it runs the move on them.
\<close>

theorem main_lowercases:
  "main w [p, a, b] h = main w [p, lower a, lower b] h \<and>
   (validate_position (lower a) = (True, ''Valid'') \<and>
    validate_position (lower b) = (True, ''Valid'') \<and> lower a \<noteq> lower b \<longrightarrow>
      main w [p, a, b] h =
        move_chess_piece w (lower a) (lower b)
          (h @ [Print Banner] @ print_position_info (lower a) @ print_position_info (lower b)
             @ [Print Executing_move_sequence]))"
  by (simp add: main_def Let_def lower_idem)

theorem main_lowercases_witness:
  "lower ''D7'' = ''d7'' \<and>
   main example_env [''app_v2.py'', ''D7'', ''d5''] [] =
     main example_env [''app_v2.py'', ''d7'', ''d5''] [] \<and>
   main example_env [''app_v2.py'', ''D7'', ''d5''] [] =
     move_chess_piece example_env ''d7'' ''d5''
       ([Print Banner] @ print_position_info ''d7'' @ print_position_info ''d5''
          @ [Print Executing_move_sequence])"
proof -
  have ne: "''d7'' \<noteq> ''d5''" by simp
  note m = main_lowercases [of example_env "''app_v2.py''" "''D7''" "''d5''" "[]",
      unfolded lower_d7_d5 append_Nil]
  from m have "main example_env [''app_v2.py'', ''D7'', ''d5''] [] =
     main example_env [''app_v2.py'', ''d7'', ''d5''] []" by (rule conjunct1)
  moreover from m valid_d7_d5 ne
  have "main example_env [''app_v2.py'', ''D7'', ''d5''] [] =
     move_chess_piece example_env ''d7'' ''d5''
       ([Print Banner] @ print_position_info ''d7'' @ print_position_info ''d5''
          @ [Print Executing_move_sequence])" by blast
  ultimately show ?thesis using lower_d7_d5(3) by blast
qed

section \<open>Missing labels\<close>

text \<open>
  Counterexample to C2 as it is stated (abort after state 2 when "close" is missing): with
  the label "close" missing from the store and a remote interface that always answers, the move from "d7" to "d5" returns normally after nine sequence executions; the
  instructions of state 3 and of state 11 are dispatched.
\<close>

theorem missing_close_does_not_abort:
  "fst (move_chess_piece env_without_close ''d7'' ''d5'' []) = Inr () \<and>
   executions (snd (move_chess_piece env_without_close ''d7'' ''d5'' [])) =
     [[tool_step ''move_robot'' [(''move_gripper_forward_mm'', ''100'')]],
      [tool_step ''control_gripper'' [(''gripper_openness_pct'', ''100'')]],
      [tool_step ''move_robot'' [(''move_gripper_forward_mm'', ''70'')]],
      create_home_sequence 70 0,
      [tool_step ''move_robot'' [(''move_gripper_forward_mm'', ''100'')]],
      [tool_step ''move_robot'' [(''move_gripper_forward_mm'', ''150'')]],
      [tool_step ''control_gripper'' [(''gripper_openness_pct'', ''100'')]],
      create_home_sequence 150 0,
      [wait_step 1, tool_step ''move_robot'' [(''move_gripper_up_mm'', ''120'')]]] \<and>
   Dispatch ''move_robot'' [(''move_gripper_forward_mm'', ''70'')] (Result ''ok'')
     \<in> set (snd (move_chess_piece env_without_close ''d7'' ''d5'' [])) \<and>
   Dispatch ''move_robot'' [(''move_gripper_up_mm'', ''120'')] (Result ''ok'')
     \<in> set (snd (move_chess_piece env_without_close ''d7'' ''d5'' []))"
  by code_simp

text \<open>
  C2 (as amended): a label that is absent from the command store at dispatch time is
  reported and skipped: \<open>execute_command_sequence\<close> prints "not found", dispatches nothing
  and returns normally, and the orchestrator goes on. With "close" missing and the other
  labels present, states 4 and 10 issue nothing: the executions issued are a prefix of the
  nine others in the fixed order, and all nine when the move returns without an exception.
\<close>

theorem missing_label_skipped:
  assumes "command_json w = Parsed commands"
    and "POSITION_DATA from_position = Some from_data"
    and "POSITION_DATA to_position = Some to_data"
    and "commands from_position = Some from_sequence"
    and "commands to_position = Some to_sequence"
    and "commands ''attack'' = Some attack"
    and "commands ''open'' = Some opn"
    and "commands ''close'' = None"
    and "commands ''move_for_cam'' = Some move_for_cam"
    and "move_chess_piece w from_position to_position h = (r, h')"
  shows "(\<forall>l h0. commands l = None \<longrightarrow>
        execute_command_sequence w l commands h0 = (Inr (), h0 @ [Print (Command_not_found l)])) \<and>
     (\<exists>d. executions h' = executions h @ d \<and>
        prefix d [attack, opn, from_sequence,
          create_home_sequence (forward from_data) (rotation from_data),
          attack, to_sequence, opn,
          create_home_sequence (forward to_data) (rotation to_data),
          move_for_cam] \<and>
        (r = Inr () \<longrightarrow>
          d = [attack, opn, from_sequence,
          create_home_sequence (forward from_data) (rotation from_data),
          attack, to_sequence, opn,
          create_home_sequence (forward to_data) (rotation to_data),
          move_for_cam]))"
proof
  show "\<forall>l h0. commands l = None \<longrightarrow>
        execute_command_sequence w l commands h0 = (Inr (), h0 @ [Print (Command_not_found l)])"
    by (simp add: execute_command_sequence_def)
next
  have "issues (move_chess_piece w from_position to_position)
     (move_plan commands from_position to_position from_data to_data)"
    using assms(1-5) by (intro move_chess_piece_issues) simp_all
  moreover have "move_plan commands from_position to_position from_data to_data =
     [attack, opn, from_sequence,
        create_home_sequence (forward from_data) (rotation from_data),
        attack, to_sequence, opn,
        create_home_sequence (forward to_data) (rotation to_data),
        move_for_cam]"
    using assms(4-9) by (simp add: move_plan_def issued_def)
  ultimately show "\<exists>d. executions h' = executions h @ d \<and>
        prefix d [attack, opn, from_sequence,
          create_home_sequence (forward from_data) (rotation from_data),
          attack, to_sequence, opn,
          create_home_sequence (forward to_data) (rotation to_data),
          move_for_cam] \<and>
        (r = Inr () \<longrightarrow>
          d = [attack, opn, from_sequence,
          create_home_sequence (forward from_data) (rotation from_data),
          attack, to_sequence, opn,
          create_home_sequence (forward to_data) (rotation to_data),
          move_for_cam])"
    using assms(10) unfolding issues_def by metis
qed

lemma without_close_lookup:
  "map_of (filter (\<lambda>(l, sq). l \<noteq> ''close'') example_items) ''attack'' =
     Some [tool_step ''move_robot'' [(''move_gripper_forward_mm'', ''100'')]]"
  "map_of (filter (\<lambda>(l, sq). l \<noteq> ''close'') example_items) ''open'' =
     Some [tool_step ''control_gripper'' [(''gripper_openness_pct'', ''100'')]]"
  "map_of (filter (\<lambda>(l, sq). l \<noteq> ''close'') example_items) ''close'' = None"
  "map_of (filter (\<lambda>(l, sq). l \<noteq> ''close'') example_items) ''move_for_cam'' =
     Some [wait_step 1, tool_step ''move_robot'' [(''move_gripper_up_mm'', ''120'')]]"
  "map_of (filter (\<lambda>(l, sq). l \<noteq> ''close'') example_items) ''d7'' =
     Some [tool_step ''move_robot'' [(''move_gripper_forward_mm'', ''70'')]]"
  "map_of (filter (\<lambda>(l, sq). l \<noteq> ''close'') example_items) ''d5'' =
     Some [tool_step ''move_robot'' [(''move_gripper_forward_mm'', ''150'')]]"
  by (simp_all add: example_items_def)

lemma without_close_well_formed:
  "map_of (filter (\<lambda>(l, sq). l \<noteq> ''close'') example_items) l = Some sq \<Longrightarrow>
     list_all well_formed sq"
  by (auto simp: example_items_def well_formed_def tool_step_def wait_step_def split: if_splits)

theorem missing_label_skipped_witness:
  "execute_command_sequence env_without_close ''close''
      (map_of (filter (\<lambda>(l, sq). l \<noteq> ''close'') example_items)) []
     = (Inr (), [Print (Command_not_found ''close'')]) \<and>
   length (executions (snd (move_chess_piece env_without_close ''d7'' ''d5'' []))) = 9"
proof -
  have cfg: "command_json env_without_close =
      Parsed (map_of (filter (\<lambda>(l, sq). l \<noteq> ''close'') example_items))"
    by (simp add: env_without_close_def)
  have ok: "fst (move_chess_piece env_without_close ''d7'' ''d5'' []) = Inr ()"
    by (rule move_chess_piece_completes [OF _ _ cfg without_close_well_formed _ _ table_d7_d5])
      (simp_all add: env_without_close_def without_close_lookup)
  obtain r h' where run: "move_chess_piece env_without_close ''d7'' ''d5'' [] = (r, h')"
    by (cases "move_chess_piece env_without_close ''d7'' ''d5'' []")
  note t = missing_label_skipped [OF cfg table_d7_d5 without_close_lookup(5)
      without_close_lookup(6) without_close_lookup(1) without_close_lookup(2)
      without_close_lookup(3) without_close_lookup(4) run]
  from t have "execute_command_sequence env_without_close ''close''
      (map_of (filter (\<lambda>(l, sq). l \<noteq> ''close'') example_items)) []
     = (Inr (), [] @ [Print (Command_not_found ''close'')])"
    using without_close_lookup(3) by blast
  moreover from t ok run
  have "length (executions (snd (move_chess_piece env_without_close ''d7'' ''d5'' []))) = 9"
    by auto
  ultimately show ?thesis by simp
qed

end
